theory Spec2Isabelle
  imports Complex_Main
begin

section \<open>Gate trees\<close>

text \<open>
  The notebook builds its circuit structure from the gate classes of the qsearch
  library: \<^verbatim>\<open>IdentityGate()\<close>, \<^verbatim>\<open>XGate()\<close>, \<^verbatim>\<open>ZGate()\<close>, \<^verbatim>\<open>CNOTGate()\<close>,
  \<^verbatim>\<open>KroneckerGate(a, b)\<close> and \<^verbatim>\<open>ProductGate(g1, ..., gk)\<close>. The notebook only ever
  calls \<^verbatim>\<open>KroneckerGate\<close> with two arguments, and \<^verbatim>\<open>ProductGate\<close> with seven or two.
\<close>

datatype gate =
    IdentityGate
  | XGate
  | ZGate
  | CNOTGate
  | KroneckerGate gate gate
  | ProductGate "gate list"

text \<open>
  Modelled from the spec: the attributes \<^verbatim>\<open>num_inputs\<close> and \<^verbatim>\<open>qudits\<close> of the gate
  classes live in the qsearch library. Section 3 of the specification fixes them: a
  rotation leaf carries exactly one real parameter slot, Identity and ControlledNot carry
  none; the qubit count of a Tensor is the sum of its children's, and the children of a
  Sequence all act on the same qubit range (taken here from the first child).
\<close>

fun num_inputs :: "gate \<Rightarrow> nat" where
  "num_inputs IdentityGate = 0"
| "num_inputs XGate = 1"
| "num_inputs ZGate = 1"
| "num_inputs CNOTGate = 0"
| "num_inputs (KroneckerGate a b) = num_inputs a + num_inputs b"
| "num_inputs (ProductGate gs) = sum_list (map num_inputs gs)"

fun qudits :: "gate \<Rightarrow> nat" where
  "qudits IdentityGate = 1"
| "qudits XGate = 1"
| "qudits ZGate = 1"
| "qudits CNOTGate = 2"
| "qudits (KroneckerGate a b) = qudits a + qudits b"
| "qudits (ProductGate []) = 0"
| "qudits (ProductGate (g # gs)) = qudits g"

section \<open>The constant-depth circuit structure\<close>

text \<open>
  \<^verbatim>\<open>
  def make_matchgate():
      rz = ZGate(); rx = XGate(); cnot = CNOTGate(); I = IdentityGate()
      RZ_layer = KroneckerGate(rz,rz)
      RX_layer = KroneckerGate(rx,rx)
      RXRZ_layer = KroneckerGate(rx, rz)
      matchgate = ProductGate(RZ_layer, RX_layer, cnot, RXRZ_layer, cnot, RX_layer, RZ_layer)
      return matchgate
  \<close>
\<close>

definition RZ_layer :: gate where
  "RZ_layer = KroneckerGate ZGate ZGate"

definition RX_layer :: gate where
  "RX_layer = KroneckerGate XGate XGate"

definition RXRZ_layer :: gate where
  "RXRZ_layer = KroneckerGate XGate ZGate"

definition make_matchgate :: gate where
  "make_matchgate =
     ProductGate [RZ_layer, RX_layer, CNOTGate, RXRZ_layer, CNOTGate, RX_layer, RZ_layer]"

text \<open>
  Reading a local variable that no statement has assigned yet raises
  \<^verbatim>\<open>UnboundLocalError\<close>; a local is therefore a \<open>gate option\<close>, \<open>None\<close> until its
  first assignment.
\<close>

datatype error = UnboundLocalError

definition read_local :: "gate option \<Rightarrow> error + gate" where
  "read_local v = (case v of None \<Rightarrow> Inl UnboundLocalError | Some g \<Rightarrow> Inr g)"

text \<open>
  \<^verbatim>\<open>int(N/2)\<close>: true division, then truncation towards zero. (The quotient is a float;
  it is exact for every \<open>N\<close> of magnitude below \<open>2^53\<close>, the range of this model.)
  \<^verbatim>\<open>range(k)\<close> is \<open>[0..<nat k]\<close>, empty for \<open>k \<le> 0\<close>; \<^verbatim>\<open>N % 2\<close> is \<open>N mod 2\<close>, which
  like Python's is never negative.
\<close>

definition int_half :: "int \<Rightarrow> int" where
  "int_half N = (if 0 \<le> N then N div 2 else - ((- N) div 2))"

text \<open>
  \<^verbatim>\<open>
  def make_layertype1(N):
      I = IdentityGate()
      for i in range(int(N/2)):
          if (i==0):
              layer = make_matchgate()
          else:
              layer = KroneckerGate(layer,make_matchgate())
      if (N%2 != 0):
          layer = KroneckerGate(layer, I)
      return layer
  \<close>
\<close>

fun layertype1_body :: "nat \<Rightarrow> error + gate option \<Rightarrow> error + gate option" where
  "layertype1_body i (Inl e) = Inl e"
| "layertype1_body i (Inr layer) =
     (if i = 0 then Inr (Some make_matchgate)
      else (case read_local layer of
              Inl e \<Rightarrow> Inl e
            | Inr l \<Rightarrow> Inr (Some (KroneckerGate l make_matchgate))))"

definition make_layertype1 :: "int \<Rightarrow> error + gate" where
  "make_layertype1 N =
     (case fold layertype1_body [0..<nat (int_half N)] (Inr None) of
        Inl e \<Rightarrow> Inl e
      | Inr layer \<Rightarrow>
          (if N mod 2 \<noteq> 0
           then (case read_local layer of
                   Inl e \<Rightarrow> Inl e
                 | Inr l \<Rightarrow> Inr (KroneckerGate l IdentityGate))
           else read_local layer))"

text \<open>
  \<^verbatim>\<open>
  def make_layertype2(N):
      I = IdentityGate()
      layer = I
      if (N%2==0):
          for _ in range(int(N/2)-1):
              layer = KroneckerGate(layer,make_matchgate())
          layer = KroneckerGate(layer,I)
      else:
          for _ in range(int(N/2)):
              layer = KroneckerGate(layer,make_matchgate())
      return layer
  \<close>
  Here \<^verbatim>\<open>layer\<close> is assigned before it is read, so no branch raises.
\<close>

definition layertype2_body :: "nat \<Rightarrow> gate \<Rightarrow> gate" where
  "layertype2_body i layer = KroneckerGate layer make_matchgate"

definition make_layertype2 :: "int \<Rightarrow> gate" where
  "make_layertype2 N =
     (if N mod 2 = 0
      then KroneckerGate (fold layertype2_body [0..<nat (int_half N - 1)] IdentityGate)
             IdentityGate
      else fold layertype2_body [0..<nat (int_half N)] IdentityGate)"

text \<open>
  \<^verbatim>\<open>
  def make_MGC(N):
      for l in range(N):
          if (l%2 == 0):
              if(l==0):
                  circuit = make_layertype2(N)
              else:
                  circuit = ProductGate(circuit, make_layertype2(N))
          else:
              circuit = ProductGate(circuit, make_layertype1(N))
      return circuit
  \<close>
  The arguments of a call are evaluated left to right: \<^verbatim>\<open>circuit\<close> is read before the
  layer is built.
\<close>

fun MGC_body :: "int \<Rightarrow> nat \<Rightarrow> error + gate option \<Rightarrow> error + gate option" where
  "MGC_body N l (Inl e) = Inl e"
| "MGC_body N l (Inr circuit) =
     (if l mod 2 = 0
      then (if l = 0 then Inr (Some (make_layertype2 N))
            else (case read_local circuit of
                    Inl e \<Rightarrow> Inl e
                  | Inr c \<Rightarrow> Inr (Some (ProductGate [c, make_layertype2 N]))))
      else (case read_local circuit of
              Inl e \<Rightarrow> Inl e
            | Inr c \<Rightarrow>
                (case make_layertype1 N of
                   Inl e \<Rightarrow> Inl e
                 | Inr l1 \<Rightarrow> Inr (Some (ProductGate [c, l1])))))"

definition make_MGC :: "int \<Rightarrow> error + gate" where
  "make_MGC N =
     (case fold (MGC_body N) [0..<nat N] (Inr None) of
        Inl e \<Rightarrow> Inl e
      | Inr circuit \<Rightarrow> read_local circuit)"

section \<open>Synthesis of one time step\<close>

text \<open>
  The body of the loop \<^verbatim>\<open>for t in range(num_steps+1)\<close>:
  \<^verbatim>\<open>
      target_unitary = result.get_unitary(circuits[t], decimals=12)
      circ_struct = make_MGC(N)
      solv = multistart_solvers.MultiStart_Solver(24)
      opts = qsearch.Options()
      opts.target = target_unitary
      ...
      dist = 1
      for _ in range(5):
          mat, vec = solv.solve_for_unitary(circ_struct, opts)
          dist_new = utils.matrix_distance_squared(mat, target_unitary)
          print(dist_new)
          if dist_new < dist:
              dist = dist_new
          if dist < 1e-10:
              break
      print(f'For timestep {t} got distance {dist}')
      result_dict = {}
      result_dict["structure"] = circ_struct
      result_dict["parameters"] = vec
      opts.assemblydict=assemblydict_ibmopenqasm
      out = opts.assembler.assemble(result_dict, opts)
      with open(f'{N}q_XY_timestep{t}.qasm', "w") as wfile:
          wfile.write(out)
  \<close>
  The solver and the distance are functions of the qsearch library, so they are
  parameters of the model. The solver receives the circuit structure and the options
  (of which only the target varies); it receives no seed and no random source, so the
  randomness of its starting points is a state \<open>'s\<close> of the library that each call
  reads and leaves changed. Matrices \<open>'m\<close> and parameter vectors \<open>'v\<close> are left
  abstract; distances are compared as real numbers, and of the tolerance \<^verbatim>\<open>1e-10\<close> the
  proofs use only that it lies below the initial distance 1. The model covers the runs
  in which the library calls return.
\<close>

type_synonym ('m, 'v, 's) solver = "gate \<Rightarrow> 'm \<Rightarrow> 's \<Rightarrow> ('m \<times> 'v) \<times> 's"

type_synonym 'm distance = "'m \<Rightarrow> 'm \<Rightarrow> real"

record ('m, 'v, 's) locals =
  mat :: "'m option"
  vec :: "'v option"
  dist :: real
  library_state :: 's
  printed :: "real list"

definition tolerance :: real where
  "tolerance = 1 / 10 ^ 10"

definition initial :: "'s \<Rightarrow> ('m, 'v, 's) locals" where
  "initial s = \<lparr>mat = None, vec = None, dist = 1, library_state = s, printed = []\<rparr>"

text \<open>One pass through the body of \<^verbatim>\<open>for _ in range(5)\<close>, up to the test of the break.\<close>

definition attempt ::
  "('m, 'v, 's) solver \<Rightarrow> 'm distance \<Rightarrow> gate \<Rightarrow> 'm
     \<Rightarrow> ('m, 'v, 's) locals \<Rightarrow> ('m, 'v, 's) locals"
where
  "attempt solve_for_unitary matrix_distance_squared circ_struct target_unitary st =
     (case solve_for_unitary circ_struct target_unitary (library_state st) of
        ((mat', vec'), s') \<Rightarrow>
          (let dist_new = matrix_distance_squared mat' target_unitary
           in \<lparr>mat = Some mat', vec = Some vec',
               dist = (if dist_new < dist st then dist_new else dist st),
               library_state = s',
               printed = printed st @ [dist_new]\<rparr>))"

text \<open>The loop with \<open>k\<close> passes left; the break leaves it.\<close>

fun retry ::
  "('m, 'v, 's) solver \<Rightarrow> 'm distance \<Rightarrow> gate \<Rightarrow> 'm \<Rightarrow> nat
     \<Rightarrow> ('m, 'v, 's) locals \<Rightarrow> ('m, 'v, 's) locals"
where
  "retry sv ds c u 0 st = st"
| "retry sv ds c u (Suc k) st =
     (let st' = attempt sv ds c u st
      in if dist st' < tolerance then st' else retry sv ds c u k st')"

text \<open>
  The same loop, listing the locals after each pass it makes: one entry for each call
  of the solver.
\<close>

fun retry_trace ::
  "('m, 'v, 's) solver \<Rightarrow> 'm distance \<Rightarrow> gate \<Rightarrow> 'm \<Rightarrow> nat \<Rightarrow> ('m, 'v, 's) locals
     \<Rightarrow> ('m, 'v, 's) locals list"
where
  "retry_trace sv ds c u 0 st = []"
| "retry_trace sv ds c u (Suc k) st =
     (let st' = attempt sv ds c u st
      in st' # (if dist st' < tolerance then [] else retry_trace sv ds c u k st'))"

text \<open>
  What one time step leaves behind: the dictionary handed to the assembler, the distance
  of the closing \<^verbatim>\<open>print\<close>, the lines printed by the attempts, the matrix of the last
  solver call and the state of the library.
\<close>

record ('m, 'v, 's) outcome =
  dict_structure :: gate
  dict_parameters :: 'v
  reported :: real
  attempts :: "real list"
  last_mat :: "'m option"
  library_after :: 's

definition timestep ::
  "('m, 'v, 's) solver \<Rightarrow> 'm distance \<Rightarrow> int \<Rightarrow> 'm \<Rightarrow> 's
     \<Rightarrow> error + ('m, 'v, 's) outcome"
where
  "timestep solve_for_unitary matrix_distance_squared N target_unitary s =
     (case make_MGC N of
        Inl e \<Rightarrow> Inl e
      | Inr circ_struct \<Rightarrow>
          (let st = retry solve_for_unitary matrix_distance_squared circ_struct
                      target_unitary 5 (initial s)
           in (case vec st of
                 None \<Rightarrow> Inl UnboundLocalError
               | Some v \<Rightarrow>
                   Inr \<lparr>dict_structure = circ_struct, dict_parameters = v, reported = dist st,
                        attempts = printed st, last_mat = mat st,
                        library_after = library_state st\<rparr>)))"

text \<open>
  The layers of a circuit built by \<^verbatim>\<open>make_MGC\<close>: the loop nests
  \<^verbatim>\<open>ProductGate(circuit, layer)\<close> to the left, so the layers are read off the left spine
  of two-element products.
\<close>

fun layers :: "gate \<Rightarrow> gate list" where
  "layers (ProductGate [c, l]) = layers c @ [l]"
| "layers g = [g]"

text \<open>The gate on qubit 0 of a layer: the leftmost factor of its Kronecker products.\<close>

fun leftmost :: "gate \<Rightarrow> gate" where
  "leftmost (KroneckerGate a b) = leftmost a"
| "leftmost g = g"

text \<open>The number of primitives (copies of \<^verbatim>\<open>make_matchgate()\<close>) tensored in a layer.\<close>

fun primitives :: "gate \<Rightarrow> nat" where
  "primitives (KroneckerGate a b) = primitives a + primitives b"
| "primitives g = (if g = make_matchgate then 1 else 0)"

text \<open>
  The state in which one call of the solver leaves the library, as a function of the
  state in which the call found it.
\<close>

definition next_state :: "('m, 'v, 's) solver \<Rightarrow> gate \<Rightarrow> 'm \<Rightarrow> 's \<Rightarrow> 's" where
  "next_state sv c u x = snd (sv c u x)"

section \<open>Sample inputs\<close>

text \<open>
  Concrete behaviours of the library, at which the theorems below are evaluated. In
  these a matrix is named by a number: the solver's state counts its calls, and the
  \<open>n\<close>-th call returns the matrix \<open>n\<close> with the parameter vector \<open>n\<close>. The
  matrix \<open>0\<close> lies at distance \<open>1/2\<close> from every target but itself, every other
  matrix at distance \<open>7/10\<close>, and a matrix is at distance \<open>0\<close> from itself.
\<close>

definition sample_solver :: "(nat, nat, nat) solver" where
  "sample_solver circ_struct target_unitary n = ((n, n), Suc n)"

definition sample_distance :: "nat distance" where
  "sample_distance m target_unitary =
     (if m = target_unitary then 0 else if m = 0 then 1 / 2 else 7 / 10)"



section \<open>Evaluation of a gate tree\<close>

text \<open>
  Modelled from the spec: the evaluator. The notebook never evaluates a gate tree itself:
  the matrices are computed by the \<^verbatim>\<open>matrix\<close> methods of the gate classes of qsearch,
  which are not among the sources. Section 4.3 of the specification fixes what they
  compute: a leaf returns its fixed matrix, a rotation leaf substituting the next
  unconsumed parameter; a Tensor returns the Kronecker product of its children's
  matrices; a Sequence returns the product of its children's matrices in time order (the
  child applied first is the rightmost factor). Running out of parameters, or
  multiplying matrices of different dimensions, gives \<open>None\<close>.

  A square matrix is its dimension with its entries.
\<close>

record cmat =
  dimension :: nat
  entry :: "nat \<Rightarrow> nat \<Rightarrow> complex"

definition mat_of_rows :: "complex list list \<Rightarrow> cmat" where
  "mat_of_rows rows = \<lparr>dimension = length rows, entry = (\<lambda>i j. rows ! i ! j)\<rparr>"

definition mat_identity :: "nat \<Rightarrow> cmat" where
  "mat_identity n = \<lparr>dimension = n, entry = (\<lambda>i j. if i = j then 1 else 0)\<rparr>"

definition mat_product :: "cmat \<Rightarrow> cmat \<Rightarrow> cmat" where
  "mat_product A B =
     \<lparr>dimension = dimension A,
      entry = (\<lambda>i j. \<Sum>k<dimension A. entry A i k * entry B k j)\<rparr>"

definition mat_kron :: "cmat \<Rightarrow> cmat \<Rightarrow> cmat" where
  "mat_kron A B =
     \<lparr>dimension = dimension A * dimension B,
      entry = (\<lambda>i j. entry A (i div dimension B) (j div dimension B)
                     * entry B (i mod dimension B) (j mod dimension B))\<rparr>"

definition dagger :: "cmat \<Rightarrow> cmat" where
  "dagger A = \<lparr>dimension = dimension A, entry = (\<lambda>i j. cnj (entry A j i))\<rparr>"

text \<open>A matrix is unitary when both products with its conjugate transpose are the identity.\<close>

definition unitary :: "cmat \<Rightarrow> bool" where
  "unitary A =
     (\<forall>i<dimension A. \<forall>j<dimension A.
        entry (mat_product A (dagger A)) i j = entry (mat_identity (dimension A)) i j
        \<and> entry (mat_product (dagger A) A) i j = entry (mat_identity (dimension A)) i j)"

text \<open>The standard matrices of the leaves: rotations about X and Z, and controlled-not.\<close>

definition rot_x :: "real \<Rightarrow> cmat" where
  "rot_x theta =
     mat_of_rows
       [[complex_of_real (cos (theta / 2)), - \<i> * complex_of_real (sin (theta / 2))],
        [- \<i> * complex_of_real (sin (theta / 2)), complex_of_real (cos (theta / 2))]]"

definition rot_z :: "real \<Rightarrow> cmat" where
  "rot_z theta = mat_of_rows [[cis (- theta / 2), 0], [0, cis (theta / 2)]]"

definition cnot :: cmat where
  "cnot = mat_of_rows [[1, 0, 0, 0], [0, 1, 0, 0], [0, 0, 0, 1], [0, 0, 1, 0]]"

text \<open>
  The evaluator returns the matrix with the parameters it has not consumed;
  \<open>evaluate_rest\<close> multiplies the matrices of the later children of a Sequence onto the
  product of the earlier ones.
\<close>

fun evaluate :: "gate \<Rightarrow> real list \<Rightarrow> (cmat \<times> real list) option"
  and evaluate_rest :: "gate list \<Rightarrow> cmat \<Rightarrow> real list \<Rightarrow> (cmat \<times> real list) option"
where
  "evaluate IdentityGate ps = Some (mat_identity 2, ps)"
| "evaluate CNOTGate ps = Some (cnot, ps)"
| "evaluate XGate [] = None"
| "evaluate XGate (p # ps) = Some (rot_x p, ps)"
| "evaluate ZGate [] = None"
| "evaluate ZGate (p # ps) = Some (rot_z p, ps)"
| "evaluate (KroneckerGate a b) ps =
     (case evaluate a ps of
        None \<Rightarrow> None
      | Some (A, ps') \<Rightarrow>
          (case evaluate b ps' of
             None \<Rightarrow> None
           | Some (B, ps'') \<Rightarrow> Some (mat_kron A B, ps'')))"
| "evaluate (ProductGate []) ps = Some (mat_identity 1, ps)"
| "evaluate (ProductGate (g # gs)) ps =
     (case evaluate g ps of
        None \<Rightarrow> None
      | Some (M, ps') \<Rightarrow> evaluate_rest gs M ps')"
| "evaluate_rest [] acc ps = Some (acc, ps)"
| "evaluate_rest (g # gs) acc ps =
     (case evaluate g ps of
        None \<Rightarrow> None
      | Some (M, ps') \<Rightarrow>
          (if dimension M = dimension acc then evaluate_rest gs (mat_product M acc) ps'
           else None))"

text \<open>
  The invariant of section 3 of the specification: the children of a Sequence all act
  on the same number of qubits.
\<close>

fun well_formed :: "gate \<Rightarrow> bool" where
  "well_formed (KroneckerGate a b) = (well_formed a \<and> well_formed b)"
| "well_formed (ProductGate gs) =
     (list_all well_formed gs \<and> list_all (\<lambda>g. qudits g = qudits (ProductGate gs)) gs)"
| "well_formed g = True"

definition orthonormal_rows :: "cmat \<Rightarrow> bool" where
  "orthonormal_rows A =
     (\<forall>i<dimension A. \<forall>j<dimension A.
        (\<Sum>k<dimension A. entry A i k * cnj (entry A j k)) = (if i = j then 1 else 0))"

section \<open>A target that is not unitary\<close>

text \<open>
  Modelled from the spec: the requirement on a target matrix, which no code of the
  notebook states. Section 6 of the specification requires the target to be square, of
  dimension \<open>2^N\<close>, and unitary.
\<close>

definition valid_target :: "nat \<Rightarrow> cmat \<Rightarrow> bool" where
  "valid_target n U = (dimension U = 2 ^ n \<and> unitary U)"

text \<open>
  Twice the identity is square and of the right dimension, and it is not unitary. The
  sample library for it: the solver returns the identity matrix with all parameters
  zero, the unitary nearest to that target, and the distance compares the overlap of two
  matrices, the sum of the products of each entry of the first with the conjugate of
  the same entry of the second, with their dimension, whatever the phase of the overlap.
\<close>

definition twice_identity :: "nat \<Rightarrow> cmat" where
  "twice_identity n = \<lparr>dimension = n, entry = (\<lambda>i j. if i = j then 2 else 0)\<rparr>"

definition zero_solver :: "(cmat, real list, unit) solver" where
  "zero_solver circ_struct target_unitary s =
     ((mat_identity (2 ^ qudits circ_struct), replicate (num_inputs circ_struct) 0), s)"

definition overlap_distance :: "cmat distance" where
  "overlap_distance A B =
     \<bar>1 - cmod (\<Sum>i<dimension A. \<Sum>j<dimension A. entry A i j * cnj (entry B i j))
            / real (dimension A)\<bar>"

section \<open>Facts about the builders\<close>

lemma matchgate_facts:
  "qudits make_matchgate = 2" "num_inputs make_matchgate = 10"
  "primitives make_matchgate = 1" "leftmost make_matchgate = make_matchgate"
  "layers make_matchgate = [make_matchgate]"
  by (simp_all add: make_matchgate_def RZ_layer_def RX_layer_def RXRZ_layer_def)

lemma fold_layertype1:
  "\<exists>g. fold layertype1_body [0..<Suc k] (Inr None) = Inr (Some g)
      \<and> qudits g = 2 * Suc k \<and> num_inputs g = 10 * Suc k \<and> primitives g = Suc k
      \<and> leftmost g = make_matchgate \<and> layers g = [g]"
proof (induction k)
  case 0
  show ?case
    by (simp add: matchgate_facts)
next
  case (Suc k)
  then obtain g where g: "fold layertype1_body [0..<Suc k] (Inr None) = Inr (Some g)"
    "qudits g = 2 * Suc k" "num_inputs g = 10 * Suc k" "primitives g = Suc k"
    "leftmost g = make_matchgate" "layers g = [g]"
    by blast
  have "fold layertype1_body [0..<Suc (Suc k)] (Inr None)
          = layertype1_body (Suc k) (Inr (Some g))"
    using g(1) by (simp del: upt_Suc add: upt_Suc_append)
  also have "\<dots> = Inr (Some (KroneckerGate g make_matchgate))"
    by (simp add: read_local_def)
  finally show ?case
    using g by (simp add: matchgate_facts)
qed

lemma fold_layertype2:
  "qudits (fold layertype2_body [0..<k] IdentityGate) = 1 + 2 * k
   \<and> num_inputs (fold layertype2_body [0..<k] IdentityGate) = 10 * k
   \<and> primitives (fold layertype2_body [0..<k] IdentityGate) = k
   \<and> leftmost (fold layertype2_body [0..<k] IdentityGate) = IdentityGate
   \<and> layers (fold layertype2_body [0..<k] IdentityGate)
       = [fold layertype2_body [0..<k] IdentityGate]"
proof (induction k)
  case 0
  show ?case by (simp add: make_matchgate_def)
next
  case (Suc k)
  then show ?case
    by (simp add: layertype2_body_def matchgate_facts)
qed

lemma layertype1_ok:
  assumes "2 \<le> N"
  shows "\<exists>g. make_layertype1 N = Inr g \<and> qudits g = nat N
           \<and> num_inputs g = 10 * nat (N div 2) \<and> primitives g = nat (N div 2)
           \<and> leftmost g = make_matchgate \<and> layers g = [g]"
proof -
  from assms obtain k where k: "nat (int_half N) = Suc k"
    by (cases "nat (int_half N)") (auto simp: int_half_def)
  from fold_layertype1 [of k] obtain g where
    g: "fold layertype1_body [0..<Suc k] (Inr None) = Inr (Some g)"
    "qudits g = 2 * Suc k" "num_inputs g = 10 * Suc k" "primitives g = Suc k"
    "leftmost g = make_matchgate" "layers g = [g]"
    by blast
  have half: "Suc k = nat (N div 2)"
    using k assms by (simp add: int_half_def)
  show ?thesis
  proof (cases "N mod 2 = 0")
    case True
    then have "make_layertype1 N = Inr g"
      by (simp add: make_layertype1_def k g(1) read_local_def del: upt_Suc)
    moreover have "2 * nat (N div 2) = nat N"
      using True assms by (auto elim!: evenE simp: nat_mult_distrib)
    ultimately show ?thesis
      using g half by simp
  next
    case False
    then have "make_layertype1 N = Inr (KroneckerGate g IdentityGate)"
      by (simp add: make_layertype1_def k g(1) read_local_def del: upt_Suc)
    moreover from False have "odd N"
      by (simp add: even_iff_mod_2_eq_zero)
    then obtain m where "N = 2 * m + 1"
      by (rule oddE)
    then have "2 * nat (N div 2) + 1 = nat N"
      using assms by (simp add: nat_mult_distrib nat_add_distrib)
    ultimately show ?thesis
      using g half by (simp add: make_matchgate_def)
  qed
qed

lemma layertype1_fails: "N \<le> 1 \<Longrightarrow> make_layertype1 N = Inl UnboundLocalError"
proof -
  assume "N \<le> 1"
  then have "nat (int_half N) = 0"
    by (auto simp: int_half_def)
  then show ?thesis
    by (simp add: make_layertype1_def read_local_def)
qed

lemma layertype2_ok:
  assumes "1 \<le> N"
  shows "qudits (make_layertype2 N) = nat N
         \<and> primitives (make_layertype2 N) = (if N mod 2 = 0 then nat (N div 2) - 1 else nat (N div 2))
         \<and> num_inputs (make_layertype2 N) = 10 * primitives (make_layertype2 N)
         \<and> leftmost (make_layertype2 N) = IdentityGate
         \<and> layers (make_layertype2 N) = [make_layertype2 N]"
proof (cases "N mod 2 = 0")
  case True
  then have "even N"
    by (simp add: even_iff_mod_2_eq_zero)
  then obtain m where m: "N = 2 * m"
    by (rule evenE)
  with assms have m1: "1 \<le> m"
    by simp
  define k where "k = nat (int_half N - 1)"
  define g where "g = fold layertype2_body [0..<k] IdentityGate"
  have k: "1 + 2 * k + 1 = nat N" "k = nat (N div 2) - 1"
    using m m1 by (simp_all add: k_def int_half_def nat_diff_distrib nat_mult_distrib)
  have L: "make_layertype2 N = KroneckerGate g IdentityGate"
    using True by (simp add: make_layertype2_def g_def k_def)
  have g: "qudits g = 1 + 2 * k" "num_inputs g = 10 * k" "primitives g = k"
    "leftmost g = IdentityGate"
    using fold_layertype2 [of k] by (simp_all add: g_def)
  have I: "primitives IdentityGate = 0"
    by (simp add: make_matchgate_def)
  show ?thesis
    unfolding L using True g k I by simp
next
  case False
  then have "odd N"
    by (simp add: even_iff_mod_2_eq_zero)
  then obtain m where m: "N = 2 * m + 1"
    by (rule oddE)
  with assms have m0: "0 \<le> m"
    by simp
  define k where "k = nat (int_half N)"
  define g where "g = fold layertype2_body [0..<k] IdentityGate"
  have k: "1 + 2 * k = nat N" "k = nat (N div 2)"
    using m m0 by (simp_all add: k_def int_half_def nat_mult_distrib nat_add_distrib)
  have L: "make_layertype2 N = g"
    using False by (simp add: make_layertype2_def g_def k_def)
  have g: "qudits g = 1 + 2 * k" "num_inputs g = 10 * k" "primitives g = k"
    "leftmost g = IdentityGate" "layers g = [g]"
    using fold_layertype2 [of k] by (simp_all add: g_def)
  show ?thesis
    unfolding L using False g k by simp
qed

section \<open>Facts about the retry loop\<close>

lemma attempt_dist_le: "dist (attempt sv ds c u st) \<le> dist st"
  by (simp add: attempt_def Let_def split: prod.splits)

lemma attempt_fields:
  "vec (attempt sv ds c u st) = Some (snd (fst (sv c u (library_state st))))"
  "mat (attempt sv ds c u st) = Some (fst (fst (sv c u (library_state st))))"
  "library_state (attempt sv ds c u st) = snd (sv c u (library_state st))"
  "printed (attempt sv ds c u st)
     = printed st @ [ds (fst (fst (sv c u (library_state st)))) u]"
  "dist (attempt sv ds c u st)
     = (if ds (fst (fst (sv c u (library_state st)))) u < dist st
        then ds (fst (fst (sv c u (library_state st)))) u else dist st)"
  by (simp_all add: attempt_def Let_def split: prod.splits)

lemma retry_last: "retry sv ds c u k st = last (st # retry_trace sv ds c u k st)"
  by (induction k arbitrary: st) (simp_all add: Let_def)


lemma retry_trace_nonempty: "retry_trace sv ds c u (Suc k) st \<noteq> []"
  by (simp add: Let_def)

lemma retry_trace_bound:
  "x \<in> set (retry_trace sv ds c u k st) \<Longrightarrow> dist x \<le> dist st"
proof (induction k arbitrary: st)
  case 0
  then show ?case by simp
next
  case (Suc k)
  let ?st' = "attempt sv ds c u st"
  have le: "dist ?st' \<le> dist st"
    by (rule attempt_dist_le)
  from Suc.prems have "x = ?st' \<or> x \<in> set (retry_trace sv ds c u k ?st')"
    by (auto simp: Let_def split: if_splits)
  then show ?case
  proof
    assume "x = ?st'"
    with le show ?thesis by simp
  next
    assume "x \<in> set (retry_trace sv ds c u k ?st')"
    then have "dist x \<le> dist ?st'"
      by (rule Suc.IH)
    with le show ?thesis by simp
  qed
qed

lemma retry_trace_sorted:
  "sorted_wrt (\<lambda>a b. dist b \<le> dist a) (retry_trace sv ds c u k st)"
proof (induction k arbitrary: st)
  case 0
  show ?case by simp
next
  case (Suc k)
  show ?case
    using Suc.IH [of "attempt sv ds c u st"] retry_trace_bound [of _ sv ds c u k "attempt sv ds c u st"]
    by (simp add: Let_def)
qed




lemma retry_vec: "vec (retry sv ds c u (Suc k) st) \<noteq> None"
proof (induction k arbitrary: st)
  case 0
  show ?case by (simp add: Let_def attempt_fields)
next
  case (Suc k)
  show ?case
    using Suc.IH [of "attempt sv ds c u st"]
    by (simp add: Let_def attempt_fields del: retry.simps(2))
      (simp add: Let_def attempt_fields)
qed

section \<open>Facts about the circuit and the time step\<close>

lemma fold_MGC:
  assumes l1: "make_layertype1 N = Inr l1"
    and l2: "layers (make_layertype2 N) = [make_layertype2 N]"
  shows "\<exists>c. fold (MGC_body N) [0..<Suc k] (Inr None) = Inr (Some c)
           \<and> layers c = map (\<lambda>l. if even l then make_layertype2 N else l1) [0..<Suc k]
           \<and> num_inputs c = sum_list (map num_inputs (layers c))
           \<and> qudits c = qudits (make_layertype2 N)"
proof (induction k)
  case 0
  show ?case
    using l2 by simp
next
  case (Suc k)
  then obtain c where c: "fold (MGC_body N) [0..<Suc k] (Inr None) = Inr (Some c)"
    "layers c = map (\<lambda>l. if even l then make_layertype2 N else l1) [0..<Suc k]"
    "num_inputs c = sum_list (map num_inputs (layers c))"
    "qudits c = qudits (make_layertype2 N)"
    by blast
  let ?l = "if even (Suc k) then make_layertype2 N else l1"
  have "fold (MGC_body N) [0..<Suc (Suc k)] (Inr None) = MGC_body N (Suc k) (Inr (Some c))"
    using c(1) by (simp del: upt_Suc add: upt_Suc_append)
  also have "\<dots> = Inr (Some (ProductGate [c, ?l]))"
    using l1 by (simp add: read_local_def even_iff_mod_2_eq_zero)
  finally have F: "fold (MGC_body N) [0..<Suc (Suc k)] (Inr None)
                     = Inr (Some (ProductGate [c, ?l]))" .
  have "layers (ProductGate [c, ?l]) = layers c @ [?l]"
    by simp
  then have L: "layers (ProductGate [c, ?l])
                  = map (\<lambda>l. if even l then make_layertype2 N else l1) [0..<Suc (Suc k)]"
    using c(2) by (simp del: upt_Suc add: upt_Suc_append)
  have "num_inputs (ProductGate [c, ?l]) = num_inputs c + num_inputs ?l"
    by simp
  then have I: "num_inputs (ProductGate [c, ?l])
                  = sum_list (map num_inputs (layers (ProductGate [c, ?l])))"
    using c(3) by simp
  have Q: "qudits (ProductGate [c, ?l]) = qudits (make_layertype2 N)"
    using c(4) by simp
  from F L I Q show ?case
    by blast
qed

lemma sum_alternating:
  "sum_list (map (\<lambda>l. if even l then a else b) [0..<n]) = ((n + 1) div 2) * a + (n div 2) * (b::nat)"
  by (induction n) (auto simp: algebra_simps elim!: evenE oddE)

lemma make_MGC_ok:
  assumes "1 \<le> N"
  shows "\<exists>c. make_MGC N = Inr c
           \<and> map Inr (layers c)
               = map (\<lambda>l. if even l then Inr (make_layertype2 N) else make_layertype1 N) [0..<nat N]
           \<and> num_inputs c = sum_list (map num_inputs (layers c))
           \<and> qudits c = nat N"
proof (cases "N = 1")
  case True
  have "make_MGC 1 = Inr (make_layertype2 1)"
    by (simp add: make_MGC_def read_local_def)
  moreover have "layers (make_layertype2 1) = [make_layertype2 1]" "qudits (make_layertype2 1) = nat 1"
    using layertype2_ok [of 1] by simp_all
  ultimately show ?thesis
    using True by simp
next
  case False
  with assms have N2: "2 \<le> N"
    by simp
  then obtain l1 where l1: "make_layertype1 N = Inr l1"
    using layertype1_ok [of N] by blast
  have l2: "layers (make_layertype2 N) = [make_layertype2 N]" "qudits (make_layertype2 N) = nat N"
    using layertype2_ok [OF assms] by simp_all
  from N2 obtain k where k: "nat N = Suc k"
    by (cases "nat N") simp_all
  from fold_MGC [OF l1 l2(1), of k] obtain c where
    c: "fold (MGC_body N) [0..<Suc k] (Inr None) = Inr (Some c)"
    "layers c = map (\<lambda>l. if even l then make_layertype2 N else l1) [0..<Suc k]"
    "num_inputs c = sum_list (map num_inputs (layers c))"
    "qudits c = qudits (make_layertype2 N)"
    by blast
  have "make_MGC N = Inr c"
    by (simp add: make_MGC_def k c(1) read_local_def del: upt_Suc)
  moreover have "map Inr (layers c)
      = map (\<lambda>l. if even l then Inr (make_layertype2 N) else make_layertype1 N) [0..<nat N]"
    unfolding c(2) k l1 by (simp del: upt_Suc)
  moreover have "qudits c = nat N"
    using c(4) l2(2) by simp
  ultimately show ?thesis
    using c(3) by (intro exI [of _ c] conjI)
qed

lemma timestep_ok:
  assumes "make_MGC N = Inr c"
  shows "\<exists>r. timestep sv ds N u s = Inr r \<and> dict_structure r = c
           \<and> reported r = dist (retry sv ds c u 5 (initial s))
           \<and> Some (dict_parameters r) = vec (retry sv ds c u 5 (initial s))
           \<and> attempts r = printed (retry sv ds c u 5 (initial s))
           \<and> last_mat r = mat (retry sv ds c u 5 (initial s))
           \<and> library_after r = library_state (retry sv ds c u 5 (initial s))"
proof -
  have "vec (retry sv ds c u (Suc 4) (initial s)) \<noteq> None"
    by (rule retry_vec)
  then obtain v where "vec (retry sv ds c u 5 (initial s)) = Some v"
    by auto
  then show ?thesis
    by (simp add: timestep_def assms Let_def)
qed

section \<open>Further facts about the loop and the circuit\<close>


lemma retry_vec_last:
  "retry_trace sv ds c u k st \<noteq> [] \<Longrightarrow>
   vec (retry sv ds c u k st)
     = Some (snd (fst (sv c u ((next_state sv c u ^^ (length (retry_trace sv ds c u k st) - 1))
                         (library_state st)))))
   \<and> mat (retry sv ds c u k st)
     = Some (fst (fst (sv c u ((next_state sv c u ^^ (length (retry_trace sv ds c u k st) - 1))
                         (library_state st)))))"
proof (induction k arbitrary: st)
  case 0
  then show ?case by simp
next
  case (Suc k)
  let ?st' = "attempt sv ds c u st"
  have nx: "library_state ?st' = next_state sv c u (library_state st)"
    by (simp add: attempt_fields next_state_def)
  show ?case
  proof (cases "dist ?st' < tolerance \<or> retry_trace sv ds c u k ?st' = []")
    case True
    then have "retry_trace sv ds c u (Suc k) st = [?st']" "retry sv ds c u (Suc k) st = ?st'"
      by (auto simp: Let_def retry_last)
    then show ?thesis
      by (simp add: attempt_fields)
  next
    case False
    then have T: "retry_trace sv ds c u (Suc k) st = ?st' # retry_trace sv ds c u k ?st'"
      "retry sv ds c u (Suc k) st = retry sv ds c u k ?st'"
      and ne: "retry_trace sv ds c u k ?st' \<noteq> []"
      by (simp_all add: Let_def)
    from ne obtain n where len: "length (retry_trace sv ds c u k ?st') = Suc n"
      by (cases "retry_trace sv ds c u k ?st'") simp_all
    show ?thesis
      unfolding T using Suc.IH [OF ne]
      by (simp add: len nx funpow_swap1)
  qed
qed

lemma retry_printed_prefix:
  "\<exists>xs. printed (retry sv ds c u k st) = printed st @ xs"
proof (induction k arbitrary: st)
  case 0
  show ?case by simp
next
  case (Suc k)
  from Suc.IH [of "attempt sv ds c u st"] obtain xs where
    "printed (retry sv ds c u k (attempt sv ds c u st)) = printed (attempt sv ds c u st) @ xs"
    by blast
  then show ?case
    by (simp add: Let_def attempt_fields)
qed

lemma retry_printed_first:
  "\<exists>xs. printed (retry sv ds c u (Suc k) st)
          = printed st @ ds (fst (fst (sv c u (library_state st)))) u # xs"
proof -
  from retry_printed_prefix [of sv ds c u k "attempt sv ds c u st"] obtain xs where
    "printed (retry sv ds c u k (attempt sv ds c u st)) = printed (attempt sv ds c u st) @ xs"
    by blast
  then show ?thesis
    by (simp add: Let_def attempt_fields)
qed

lemma Identity_not_matchgate: "IdentityGate \<noteq> make_matchgate"
  by (simp add: make_matchgate_def)

lemma make_MGC_3:
  "make_MGC 3 =
     Inr (ProductGate
            [ProductGate [KroneckerGate IdentityGate make_matchgate,
                          KroneckerGate make_matchgate IdentityGate],
             KroneckerGate IdentityGate make_matchgate])"
  by code_simp

lemma make_MGC_num_inputs:
  assumes "1 \<le> N"
  shows "\<exists>c. make_MGC N = Inr c \<and> num_inputs c = 5 * nat N * (nat N - 1)"
proof -
  from make_MGC_ok [OF assms] obtain c where
    c: "make_MGC N = Inr c"
    "map Inr (layers c)
       = map (\<lambda>l. if even l then Inr (make_layertype2 N) else make_layertype1 N) [0..<nat N]"
    "num_inputs c = sum_list (map num_inputs (layers c))"
    by blast
  have p2: "num_inputs (make_layertype2 N)
              = 10 * (if N mod 2 = 0 then nat (N div 2) - 1 else nat (N div 2))"
    using layertype2_ok [OF assms] by simp
  show ?thesis
  proof (cases "N = 1")
    case True
    with c(2) have "map Inr (layers c) = [Inr (make_layertype2 1) :: error + gate]"
      by simp
    then have "layers c = [make_layertype2 1]"
      by (cases "layers c") auto
    with c(3) p2 True have "num_inputs c = 0"
      by simp
    with c(1) True show ?thesis
      by simp
  next
    case False
    with assms have N2: "2 \<le> N"
      by simp
    from layertype1_ok [OF N2] obtain g where
      g: "make_layertype1 N = Inr g" "num_inputs g = 10 * nat (N div 2)"
      by blast
    have "map (\<lambda>l. if even l then Inr (make_layertype2 N) else make_layertype1 N) [0..<nat N]
            = map Inr (map (\<lambda>l. if even l then make_layertype2 N else g) [0..<nat N])"
      by (auto simp: g(1))
    with c(2) have "(map Inr (layers c) :: (error + gate) list)
            = map Inr (map (\<lambda>l. if even l then make_layertype2 N else g) [0..<nat N])"
      by simp
    then have "layers c = map (\<lambda>l. if even l then make_layertype2 N else g) [0..<nat N]"
      by (rule map_injective) simp
    then have "map num_inputs (layers c)
        = map (\<lambda>l. if even l then num_inputs (make_layertype2 N) else num_inputs g) [0..<nat N]"
      by simp
    then have S: "num_inputs c
        = ((nat N + 1) div 2) * num_inputs (make_layertype2 N) + (nat N div 2) * num_inputs g"
      using c(3) sum_alternating [of "num_inputs (make_layertype2 N)" "num_inputs g" "nat N"]
      by simp
    have "num_inputs c = 5 * nat N * (nat N - 1)"
    proof (cases "N mod 2 = 0")
      case True
      then have "even N"
        by (simp add: even_iff_mod_2_eq_zero)
      then obtain m where m: "N = 2 * m"
        by (rule evenE)
      with N2 have m1: "1 \<le> m"
        by simp
      define j where "j = nat (m - 1)"
      have j: "m = int (Suc j)"
        using m1 by (simp add: j_def)
      have n: "nat N = 2 * Suc j" "nat (N div 2) = Suc j"
        unfolding m j by (simp_all add: nat_mult_distrib)
      have a: "num_inputs (make_layertype2 N) = 10 * j"
        using p2 True n(2) by simp
      have b: "num_inputs g = 10 * Suc j"
        using g(2) n(2) by simp
      have d: "(2 * Suc j + 1) div 2 = Suc j" "2 * Suc j div 2 = Suc j" "2 * Suc j - 1 = Suc (2 * j)"
        by simp_all
      have "num_inputs c = Suc j * (10 * j) + Suc j * (10 * Suc j)"
        unfolding S n a b d ..
      also have "\<dots> = 5 * (2 * Suc j) * Suc (2 * j)"
        by (simp add: algebra_simps)
      finally show ?thesis
        unfolding n d .
    next
      case False
      then have "odd N"
        by (simp add: even_iff_mod_2_eq_zero)
      then obtain m where m: "N = 2 * m + 1"
        by (rule oddE)
      with N2 have m0: "0 \<le> m"
        by simp
      define j where "j = nat m"
      have j: "m = int j"
        using m0 by (simp add: j_def)
      have n: "nat N = 2 * j + 1" "nat (N div 2) = j"
        unfolding m j by (simp_all add: nat_mult_distrib nat_add_distrib)
      have a: "num_inputs (make_layertype2 N) = 10 * j"
        using p2 False n(2) by simp
      have b: "num_inputs g = 10 * j"
        using g(2) n(2) by simp
      have d: "(2 * j + 1 + 1) div 2 = Suc j" "(2 * j + 1) div 2 = j" "2 * j + 1 - 1 = 2 * j"
        by simp_all
      have "num_inputs c = Suc j * (10 * j) + j * (10 * j)"
        unfolding S n a b d ..
      also have "\<dots> = 5 * (2 * j + 1) * (2 * j)"
        by (simp add: algebra_simps)
      finally show ?thesis
        unfolding n d .
    qed
    with c(1) show ?thesis
      by simp
  qed
qed


section \<open>Facts about matrices and evaluation\<close>

lemma unitary_iff: "unitary A = (orthonormal_rows A \<and> orthonormal_rows (dagger A))"
  unfolding unitary_def orthonormal_rows_def
  by (auto simp add: mat_product_def dagger_def mat_identity_def mult.commute)

lemma dimension_simps:
  "dimension (mat_identity n) = n"
  "dimension (mat_product A B) = dimension A"
  "dimension (mat_kron A B) = dimension A * dimension B"
  "dimension (dagger A) = dimension A"
  "dimension (mat_of_rows rows) = length rows"
  by (simp_all add: mat_identity_def mat_product_def mat_kron_def dagger_def mat_of_rows_def)

lemma dagger_product:
  "dimension A = dimension B \<Longrightarrow> dagger (mat_product A B) = mat_product (dagger B) (dagger A)"
  by (simp add: dagger_def mat_product_def mult.commute)

lemma dagger_kron: "dagger (mat_kron A B) = mat_kron (dagger A) (dagger B)"
  by (simp add: dagger_def mat_kron_def)

lemma unitary_identity: "unitary (mat_identity n)"
proof -
  have "orthonormal_rows (mat_identity n)"
    unfolding orthonormal_rows_def mat_identity_def
    by (auto simp: sum.delta if_distrib [of "\<lambda>x. x * _"] if_distrib [of cnj] cong: if_cong)
  moreover have "dagger (mat_identity n) = mat_identity n"
    by (auto simp: dagger_def mat_identity_def fun_eq_iff)
  ultimately show ?thesis
    by (simp add: unitary_iff)
qed

lemma unitary_rot_z: "unitary (rot_z t)"
  unfolding unitary_def
  by (auto simp: rot_z_def mat_of_rows_def mat_product_def dagger_def mat_identity_def
      eval_nat_numeral less_Suc_eq cis_cnj cis_mult)

lemma unitary_rot_x: "unitary (rot_x t)"
proof -
  have sq: "complex_of_real (cos (t / 2)) * complex_of_real (cos (t / 2))
            + complex_of_real (sin (t / 2)) * complex_of_real (sin (t / 2)) = 1"
  proof -
    have "cos (t / 2) * cos (t / 2) + sin (t / 2) * sin (t / 2) = 1"
      using sin_cos_squared_add2 [of "t / 2"] by (simp add: power2_eq_square)
    then have "complex_of_real (cos (t / 2) * cos (t / 2) + sin (t / 2) * sin (t / 2)) = 1"
      by simp
    then show ?thesis
      by (simp only: of_real_add of_real_mult)
  qed
  show ?thesis
    unfolding unitary_def
    using sq
    by (auto simp: rot_x_def mat_of_rows_def mat_product_def dagger_def mat_identity_def
        eval_nat_numeral less_Suc_eq algebra_simps)
qed

lemma unitary_cnot: "unitary cnot"
  unfolding unitary_def
  by (auto simp: cnot_def mat_of_rows_def mat_product_def dagger_def mat_identity_def
      eval_nat_numeral less_Suc_eq)

lemma orthonormal_rows_product:
  assumes A: "orthonormal_rows A" and B: "orthonormal_rows B"
    and d: "dimension B = dimension A"
  shows "orthonormal_rows (mat_product A B)"
  unfolding orthonormal_rows_def
proof (intro allI impI)
  fix i j
  assume "i < dimension (mat_product A B)" "j < dimension (mat_product A B)"
  then have i: "i < dimension A" and j: "j < dimension A"
    by (simp_all add: dimension_simps)
  let ?d = "dimension A"
  let ?a = "entry A i" and ?a' = "entry A j" and ?b = "entry B"
  have B': "\<And>l m. l < ?d \<Longrightarrow> m < ?d \<Longrightarrow>
              (\<Sum>k<?d. ?b l k * cnj (?b m k)) = (if l = m then 1 else 0)"
    using B d unfolding orthonormal_rows_def by simp
  have "(\<Sum>k<?d. (\<Sum>l<?d. ?a l * ?b l k) * cnj (\<Sum>m<?d. ?a' m * ?b m k))
        = (\<Sum>k<?d. \<Sum>l<?d. \<Sum>m<?d. (?a l * cnj (?a' m)) * (?b l k * cnj (?b m k)))"
    by (simp add: cnj_sum sum_product mult_ac)
  also have "\<dots> = (\<Sum>l<?d. \<Sum>k<?d. \<Sum>m<?d. (?a l * cnj (?a' m)) * (?b l k * cnj (?b m k)))"
    by (rule sum.swap)
  also have "\<dots> = (\<Sum>l<?d. \<Sum>m<?d. \<Sum>k<?d. (?a l * cnj (?a' m)) * (?b l k * cnj (?b m k)))"
    by (rule sum.cong [OF refl]) (rule sum.swap)
  also have "\<dots> = (\<Sum>l<?d. \<Sum>m<?d. (?a l * cnj (?a' m)) * (\<Sum>k<?d. ?b l k * cnj (?b m k)))"
    by (simp add: sum_distrib_left)
  also have "\<dots> = (\<Sum>l<?d. \<Sum>m<?d. (?a l * cnj (?a' m)) * (if l = m then 1 else 0))"
    by (intro sum.cong refl) (simp add: B')
  also have "\<dots> = (\<Sum>l<?d. ?a l * cnj (?a' l))"
    by (intro sum.cong refl) (simp add: sum.delta if_distrib [of "\<lambda>x. _ * x"] cong: if_cong)
  also have "\<dots> = (if i = j then 1 else 0)"
    using A i j unfolding orthonormal_rows_def by simp
  finally show "(\<Sum>k<dimension (mat_product A B).
                   entry (mat_product A B) i k * cnj (entry (mat_product A B) j k))
                = (if i = j then 1 else 0)"
    by (simp add: mat_product_def)
qed

lemma unitary_product:
  assumes "unitary A" "unitary B" "dimension B = dimension A"
  shows "unitary (mat_product A B)"
proof -
  from assms have r: "orthonormal_rows A" "orthonormal_rows B"
    "orthonormal_rows (dagger A)" "orthonormal_rows (dagger B)"
    by (simp_all add: unitary_iff)
  have 1: "orthonormal_rows (mat_product A B)"
    using r(1) r(2) assms(3) by (rule orthonormal_rows_product)
  have "orthonormal_rows (mat_product (dagger B) (dagger A))"
    using r(4) r(3) by (rule orthonormal_rows_product) (simp add: dimension_simps assms(3))
  then have 2: "orthonormal_rows (dagger (mat_product A B))"
    using assms(3) by (simp add: dagger_product)
  from 1 2 show ?thesis
    by (simp add: unitary_iff)
qed

lemma sum_div_mod:
  fixes f :: "nat \<Rightarrow> nat \<Rightarrow> complex"
  shows "(\<Sum>k<m * n. f (k div n) (k mod n)) = (\<Sum>a<m. \<Sum>b<n. f a b)"
proof (induction m)
  case 0
  show ?case by simp
next
  case (Suc m)
  let ?g = "\<lambda>k. f (k div n) (k mod n)"
  have "(\<Sum>k<Suc m * n. ?g k) = sum ?g {0..<m * n + n}"
    by (simp add: lessThan_atLeast0 add.commute)
  also have "\<dots> = sum ?g {0..<m * n} + sum ?g {m * n..<m * n + n}"
    by (rule sum.atLeastLessThan_concat [symmetric]) simp_all
  also have "sum ?g {m * n..<m * n + n} = sum (\<lambda>b. f m b) {0..<n}"
    using sum.shift_bounds_nat_ivl [of ?g 0 "m * n" n] by (simp add: add.commute)
  finally show ?case
    using Suc.IH by (simp add: lessThan_atLeast0)
qed

lemma orthonormal_rows_kron:
  assumes A: "orthonormal_rows A" and B: "orthonormal_rows B"
  shows "orthonormal_rows (mat_kron A B)"
  unfolding orthonormal_rows_def
proof (intro allI impI)
  fix i j
  let ?m = "dimension A" and ?n = "dimension B"
  assume "i < dimension (mat_kron A B)" "j < dimension (mat_kron A B)"
  then have i: "i < ?m * ?n" and j: "j < ?m * ?n"
    by (simp_all add: dimension_simps)
  then have n: "0 < ?n"
    by (cases "?n") simp_all
  have id: "i div ?n < ?m" "j div ?n < ?m"
    using i j by (simp_all add: less_mult_imp_div_less)
  have im: "i mod ?n < ?n" "j mod ?n < ?n"
    using n by simp_all
  let ?f = "\<lambda>a b. (entry A (i div ?n) a * cnj (entry A (j div ?n) a))
                  * (entry B (i mod ?n) b * cnj (entry B (j mod ?n) b))"
  have "(\<Sum>k<?m * ?n. entry (mat_kron A B) i k * cnj (entry (mat_kron A B) j k))
        = (\<Sum>k<?m * ?n. ?f (k div ?n) (k mod ?n))"
    by (simp add: mat_kron_def mult_ac)
  also have "\<dots> = (\<Sum>a<?m. \<Sum>b<?n. ?f a b)"
    by (rule sum_div_mod)
  also have "\<dots> = (\<Sum>a<?m. entry A (i div ?n) a * cnj (entry A (j div ?n) a))
                   * (\<Sum>b<?n. entry B (i mod ?n) b * cnj (entry B (j mod ?n) b))"
    by (simp add: sum_product)
  also have "\<dots> = (if i div ?n = j div ?n then 1 else 0) * (if i mod ?n = j mod ?n then 1 else 0)"
    using A B id im unfolding orthonormal_rows_def by simp
  also have "\<dots> = (if i = j then 1 else 0)"
  proof -
    have "i = j \<longleftrightarrow> i div ?n = j div ?n \<and> i mod ?n = j mod ?n"
      by (metis div_mult_mod_eq)
    then show ?thesis
      by simp
  qed
  finally show "(\<Sum>k<dimension (mat_kron A B).
                   entry (mat_kron A B) i k * cnj (entry (mat_kron A B) j k))
                = (if i = j then 1 else 0)"
    by (simp add: dimension_simps)
qed

lemma unitary_kron:
  assumes "unitary A" "unitary B"
  shows "unitary (mat_kron A B)"
proof -
  from assms have r: "orthonormal_rows A" "orthonormal_rows B"
    "orthonormal_rows (dagger A)" "orthonormal_rows (dagger B)"
    by (simp_all add: unitary_iff)
  from r(1) r(2) have 1: "orthonormal_rows (mat_kron A B)"
    by (rule orthonormal_rows_kron)
  from r(3) r(4) have "orthonormal_rows (mat_kron (dagger A) (dagger B))"
    by (rule orthonormal_rows_kron)
  then have 2: "orthonormal_rows (dagger (mat_kron A B))"
    by (simp add: dagger_kron)
  from 1 2 show ?thesis
    by (simp add: unitary_iff)
qed

lemma leaf_dimensions:
  "dimension (rot_x t) = 2" "dimension (rot_z t) = 2" "dimension cnot = 4"
  by (simp_all add: rot_x_def rot_z_def cnot_def dimension_simps)

lemma evaluate_rest_unitary:
  assumes each: "\<And>g ps. g \<in> set gs \<Longrightarrow> num_inputs g \<le> length ps \<Longrightarrow>
                   \<exists>M. evaluate g ps = Some (M, drop (num_inputs g) ps)
                       \<and> dimension M = 2 ^ q \<and> unitary M"
    and acc: "dimension acc = 2 ^ q" "unitary acc"
    and len: "sum_list (map num_inputs gs) \<le> length ps"
  shows "\<exists>M. evaluate_rest gs acc ps = Some (M, drop (sum_list (map num_inputs gs)) ps)
             \<and> dimension M = 2 ^ q \<and> unitary M"
  using assms
proof (induction gs arbitrary: acc ps)
  case Nil
  then show ?case by simp
next
  case (Cons g gs)
  from Cons.prems(4) have l1: "num_inputs g \<le> length ps"
    and l2: "sum_list (map num_inputs gs) \<le> length (drop (num_inputs g) ps)"
    by simp_all
  from Cons.prems(1) [of g ps] l1 obtain M where
    M: "evaluate g ps = Some (M, drop (num_inputs g) ps)" "dimension M = 2 ^ q" "unitary M"
    by auto
  have d: "dimension (mat_product M acc) = 2 ^ q"
    by (simp add: dimension_simps M(2))
  have u: "unitary (mat_product M acc)"
    using M(3) Cons.prems(3) by (rule unitary_product) (simp add: M(2) Cons.prems(2))
  have each': "\<And>h ps. h \<in> set gs \<Longrightarrow> num_inputs h \<le> length ps \<Longrightarrow>
                   \<exists>M. evaluate h ps = Some (M, drop (num_inputs h) ps)
                       \<and> dimension M = 2 ^ q \<and> unitary M"
    using Cons.prems(1) by simp
  from Cons.IH [OF each' d u l2] obtain M' where
    M': "evaluate_rest gs (mat_product M acc) (drop (num_inputs g) ps)
           = Some (M', drop (sum_list (map num_inputs gs)) (drop (num_inputs g) ps))"
    "dimension M' = 2 ^ q" "unitary M'"
    by blast
  have "evaluate_rest (g # gs) acc ps
          = evaluate_rest gs (mat_product M acc) (drop (num_inputs g) ps)"
    by (simp add: M Cons.prems(2))
  with M' show ?case
    by (simp add: add.commute)
qed

lemma evaluate_unitary:
  "well_formed g \<Longrightarrow> num_inputs g \<le> length ps \<Longrightarrow>
     \<exists>M. evaluate g ps = Some (M, drop (num_inputs g) ps)
         \<and> dimension M = 2 ^ qudits g \<and> unitary M"
proof (induction g arbitrary: ps)
  case IdentityGate
  show ?case
    by (simp add: dimension_simps unitary_identity)
next
  case XGate
  then obtain p ps' where "ps = p # ps'"
    by (cases ps) simp_all
  then show ?case
    by (simp add: leaf_dimensions unitary_rot_x)
next
  case ZGate
  then obtain p ps' where "ps = p # ps'"
    by (cases ps) simp_all
  then show ?case
    by (simp add: leaf_dimensions unitary_rot_z)
next
  case CNOTGate
  show ?case
    by (simp add: leaf_dimensions unitary_cnot)
next
  case (KroneckerGate a b)
  from KroneckerGate.prems have wa: "well_formed a" and wb: "well_formed b"
    and la: "num_inputs a \<le> length ps"
    and lb: "num_inputs b \<le> length (drop (num_inputs a) ps)"
    by simp_all
  from KroneckerGate.IH(1) [OF wa la] obtain A where
    A: "evaluate a ps = Some (A, drop (num_inputs a) ps)" "dimension A = 2 ^ qudits a" "unitary A"
    by blast
  from KroneckerGate.IH(2) [OF wb lb] obtain B where
    B: "evaluate b (drop (num_inputs a) ps)
          = Some (B, drop (num_inputs b) (drop (num_inputs a) ps))"
    "dimension B = 2 ^ qudits b" "unitary B"
    by blast
  have "evaluate (KroneckerGate a b) ps
          = Some (mat_kron A B, drop (num_inputs (KroneckerGate a b)) ps)"
    by (simp add: A(1) B(1) add.commute)
  moreover have "dimension (mat_kron A B) = 2 ^ qudits (KroneckerGate a b)"
    by (simp add: dimension_simps A(2) B(2) power_add)
  moreover have "unitary (mat_kron A B)"
    using A(3) B(3) by (rule unitary_kron)
  ultimately show ?case
    by blast
next
  case (ProductGate gs)
  show ?case
  proof (cases gs)
    case Nil
    then show ?thesis
      by (simp add: dimension_simps unitary_identity)
  next
    case (Cons g gs')
    from ProductGate.prems Cons have wg: "well_formed g"
      and lg: "num_inputs g \<le> length ps"
      and lr: "sum_list (map num_inputs gs') \<le> length (drop (num_inputs g) ps)"
      and wr: "\<And>h. h \<in> set gs' \<Longrightarrow> well_formed h \<and> qudits h = qudits g"
      by (simp_all add: list_all_iff)
    from ProductGate.IH [of g ps] Cons wg lg obtain M where
      M: "evaluate g ps = Some (M, drop (num_inputs g) ps)" "dimension M = 2 ^ qudits g"
      "unitary M"
      by auto
    have each: "\<And>h ps. h \<in> set gs' \<Longrightarrow> num_inputs h \<le> length ps \<Longrightarrow>
                   \<exists>M. evaluate h ps = Some (M, drop (num_inputs h) ps)
                       \<and> dimension M = 2 ^ qudits g \<and> unitary M"
    proof -
      fix h and ps :: "real list"
      assume h: "h \<in> set gs'" and l: "num_inputs h \<le> length ps"
      from h Cons have "h \<in> set gs"
        by simp
      from ProductGate.IH [OF this _ l] wr [OF h] show
        "\<exists>M. evaluate h ps = Some (M, drop (num_inputs h) ps)
            \<and> dimension M = 2 ^ qudits g \<and> unitary M"
        by simp
    qed
    from evaluate_rest_unitary [OF each M(2) M(3) lr] obtain M' where
      M': "evaluate_rest gs' M (drop (num_inputs g) ps)
             = Some (M', drop (sum_list (map num_inputs gs')) (drop (num_inputs g) ps))"
      "dimension M' = 2 ^ qudits g" "unitary M'"
      by blast
    have "evaluate (ProductGate gs) ps = Some (M', drop (num_inputs (ProductGate gs)) ps)"
      by (simp add: Cons M(1) M'(1) add.commute)
    moreover have "dimension M' = 2 ^ qudits (ProductGate gs)"
      by (simp add: Cons M'(2))
    ultimately show ?thesis
      using M'(3) by blast
  qed
qed

lemma well_formed_matchgate: "well_formed make_matchgate"
  by (simp add: make_matchgate_def RZ_layer_def RX_layer_def RXRZ_layer_def)

lemma fold_layertype1_wf:
  "fold layertype1_body [0..<Suc k] (Inr None) = Inr (Some g) \<Longrightarrow> well_formed g"
proof (induction k arbitrary: g)
  case 0
  then show ?case
    by (auto simp: well_formed_matchgate)
next
  case (Suc k)
  from fold_layertype1 [of k] obtain g' where
    g': "fold layertype1_body [0..<Suc k] (Inr None) = Inr (Some g')"
    by blast
  then have w: "well_formed g'"
    by (rule Suc.IH)
  have "fold layertype1_body [0..<Suc (Suc k)] (Inr None)
          = layertype1_body (Suc k) (Inr (Some g'))"
    using g' by (simp del: upt_Suc add: upt_Suc_append)
  also have "\<dots> = Inr (Some (KroneckerGate g' make_matchgate))"
    by (simp add: read_local_def)
  finally have "g = KroneckerGate g' make_matchgate"
    using Suc.prems by simp
  with w show ?case
    by (simp add: well_formed_matchgate)
qed

lemma layertype1_wf:
  assumes "make_layertype1 N = Inr g"
  shows "well_formed g"
proof (cases "nat (int_half N)")
  case 0
  with assms show ?thesis
    by (simp add: make_layertype1_def read_local_def split: if_splits)
next
  case (Suc k)
  from fold_layertype1 [of k] obtain g' where
    g': "fold layertype1_body [0..<Suc k] (Inr None) = Inr (Some g')"
    by blast
  then have w: "well_formed g'"
    by (rule fold_layertype1_wf)
  from assms have "g = g' \<or> g = KroneckerGate g' IdentityGate"
    by (auto simp add: make_layertype1_def Suc g' read_local_def simp del: upt_Suc
        split: if_splits)
  with w show ?thesis
    by auto
qed

lemma fold_layertype2_wf: "well_formed (fold layertype2_body [0..<k] IdentityGate)"
  by (induction k) (simp_all add: layertype2_body_def well_formed_matchgate)

lemma layertype2_wf: "well_formed (make_layertype2 N)"
  by (simp add: make_layertype2_def fold_layertype2_wf)

lemma fold_MGC_wf:
  assumes l1: "make_layertype1 N = Inr l1" and N: "2 \<le> N"
  shows "fold (MGC_body N) [0..<Suc k] (Inr None) = Inr (Some c) \<Longrightarrow> well_formed c"
proof (induction k arbitrary: c)
  case 0
  then show ?case
    by (auto simp: layertype2_wf)
next
  case (Suc k)
  have N1: "1 \<le> N"
    using N by simp
  have l2: "layers (make_layertype2 N) = [make_layertype2 N]"
    "qudits (make_layertype2 N) = nat N"
    using layertype2_ok [OF N1] by simp_all
  have q1: "qudits l1 = nat N"
    using layertype1_ok [OF N] l1 by auto
  from fold_MGC [OF l1 l2(1), of k] obtain c' where
    c': "fold (MGC_body N) [0..<Suc k] (Inr None) = Inr (Some c')"
    "qudits c' = qudits (make_layertype2 N)"
    by blast
  from c'(1) have w: "well_formed c'"
    by (rule Suc.IH)
  let ?l = "if even (Suc k) then make_layertype2 N else l1"
  have "fold (MGC_body N) [0..<Suc (Suc k)] (Inr None) = MGC_body N (Suc k) (Inr (Some c'))"
    using c'(1) by (simp del: upt_Suc add: upt_Suc_append)
  also have "\<dots> = Inr (Some (ProductGate [c', ?l]))"
    using l1 by (simp add: read_local_def even_iff_mod_2_eq_zero)
  finally have c: "c = ProductGate [c', ?l]"
    using Suc.prems by simp
  have "well_formed ?l" "qudits ?l = qudits c'"
    using layertype2_wf [of N] layertype1_wf [OF l1] c'(2) l2(2) q1 by simp_all
  with w show ?case
    unfolding c by simp
qed

lemma make_MGC_wf:
  assumes "1 \<le> N" and c: "make_MGC N = Inr c"
  shows "well_formed c"
proof (cases "N = 1")
  case True
  have "make_MGC 1 = Inr (make_layertype2 1)"
    by (simp add: make_MGC_def read_local_def)
  with c True show ?thesis
    using layertype2_wf [of 1] by simp
next
  case False
  with assms have N2: "2 \<le> N"
    by simp
  then obtain l1 where l1: "make_layertype1 N = Inr l1"
    using layertype1_ok [of N] by blast
  from N2 obtain k where k: "nat N = Suc k"
    by (cases "nat N") simp_all
  from c have "fold (MGC_body N) [0..<Suc k] (Inr None) = Inr (Some c)"
    by (simp add: make_MGC_def k read_local_def del: upt_Suc split: sum.splits option.splits)
  then show ?thesis
    by (rule fold_MGC_wf [OF l1 N2])
qed

section \<open>Facts about the sample target and the state of the library\<close>

lemma twice_identity_not_unitary: "0 < n \<Longrightarrow> \<not> unitary (twice_identity n)"
proof
  assume n: "0 < n" and "unitary (twice_identity n)"
  then have "entry (mat_product (twice_identity n) (dagger (twice_identity n))) 0 0
               = entry (mat_identity n) 0 0"
    by (simp add: unitary_def twice_identity_def)
  moreover have "entry (mat_product (twice_identity n) (dagger (twice_identity n))) 0 0 = 4"
    using n by (simp add: mat_product_def dagger_def twice_identity_def sum.delta
        if_distrib [of "\<lambda>x. x * _"] if_distrib [of cnj] cong: if_cong)
  ultimately show False
    by (simp add: mat_identity_def)
qed

lemma overlap_identity_twice:
  "0 < n \<Longrightarrow> overlap_distance (mat_identity n) (twice_identity n) = 1"
proof -
  assume n: "0 < n"
  have "(\<Sum>i<n. \<Sum>j<n. entry (mat_identity n) i j * cnj (entry (twice_identity n) i j))
          = (\<Sum>i<n. (2::complex))"
    by (intro sum.cong refl)
      (simp add: mat_identity_def twice_identity_def sum.delta
        if_distrib [of "\<lambda>x. _ * x"] if_distrib [of cnj] cong: if_cong)
  also have "\<dots> = 2 * of_nat n"
    by simp
  finally have "cmod (\<Sum>i<n. \<Sum>j<n. entry (mat_identity n) i j
                   * cnj (entry (twice_identity n) i j)) = 2 * real n"
    by (simp add: norm_mult)
  then show ?thesis
    using n by (simp add: overlap_distance_def dimension_simps)
qed

lemma retry_no_progress:
  assumes one: "\<And>s. ds (fst (fst (sv c u s))) u = 1" and st: "dist st = 1"
  shows "printed (retry sv ds c u k st) = printed st @ replicate k 1
         \<and> dist (retry sv ds c u k st) = 1"
  using st
proof (induction k arbitrary: st)
  case 0
  then show ?case by simp
next
  case (Suc k)
  let ?st' = "attempt sv ds c u st"
  have d: "dist ?st' = 1"
    using Suc.prems by (simp add: attempt_fields one)
  have p: "printed ?st' = printed st @ [1]"
    by (simp add: attempt_fields one)
  have nb: "\<not> dist ?st' < tolerance"
    unfolding d by (simp add: tolerance_def)
  from Suc.IH [OF d] p nb show ?case
    by (simp add: Let_def replicate_app_Cons_same)
qed




lemma make_MGC_2:
  "make_MGC 2 = Inr (ProductGate [KroneckerGate IdentityGate IdentityGate, make_matchgate])"
  by code_simp

section \<open>The two-qubit primitive\<close>

text \<open>
  C5: \<^verbatim>\<open>make_matchgate()\<close> is a sequential composition over 2 qubits of exactly seven
  steps, in this order: a paired Z-rotation layer, a paired X-rotation layer, a
  controlled-not, a mixed X/Z-rotation layer, a second controlled-not, a paired
  X-rotation layer and a paired Z-rotation layer.
\<close>

theorem make_matchgate_steps:
  "make_matchgate =
     ProductGate
       [KroneckerGate ZGate ZGate, KroneckerGate XGate XGate, CNOTGate,
        KroneckerGate XGate ZGate, CNOTGate, KroneckerGate XGate XGate,
        KroneckerGate ZGate ZGate]
   \<and> qudits make_matchgate = 2
   \<and> (\<exists>steps. make_matchgate = ProductGate steps \<and> length steps = 7
        \<and> list_all (\<lambda>g. qudits g = 2) steps)"
  by (simp add: make_matchgate_def RZ_layer_def RX_layer_def RXRZ_layer_def)

section \<open>The brick-wall circuit\<close>

text \<open>
  C6: for every \<open>N \<ge> 1\<close>, \<^verbatim>\<open>make_MGC(N)\<close> returns a circuit of exactly \<open>N\<close>
  layers; the layer of index \<open>l\<close> is the one built by \<^verbatim>\<open>make_layertype2(N)\<close>, whose
  gate on qubit 0 is the identity, when \<open>l\<close> is even, and the one built by
  \<^verbatim>\<open>make_layertype1(N)\<close>, whose first pair starts on qubit 0, when \<open>l\<close> is odd. The
  structure handed on by a time step is this circuit whatever the target, the library
  and its state are.
\<close>

theorem make_MGC_layers:
  assumes "1 \<le> N"
  shows "\<exists>c. make_MGC N = Inr c
           \<and> length (layers c) = nat N
           \<and> map Inr (layers c)
               = map (\<lambda>l. if even l then Inr (make_layertype2 N) else make_layertype1 N)
                   [0..<nat N]
           \<and> leftmost (make_layertype2 N) = IdentityGate
           \<and> (\<forall>g. make_layertype1 N = Inr g \<longrightarrow> leftmost g = make_matchgate)
           \<and> (\<forall>sv ds u s. \<exists>r. timestep sv ds N u s = Inr r \<and> dict_structure r = c)"
proof -
  from make_MGC_ok [OF assms] obtain c where
    c: "make_MGC N = Inr c"
    "map Inr (layers c)
       = map (\<lambda>l. if even l then Inr (make_layertype2 N) else make_layertype1 N) [0..<nat N]"
    by blast
  have "length (map Inr (layers c) :: (error + gate) list) = nat N"
    unfolding c(2) by simp
  then have len: "length (layers c) = nat N"
    by simp
  have left2: "leftmost (make_layertype2 N) = IdentityGate"
    using layertype2_ok [OF assms] by simp
  have left1: "\<forall>g. make_layertype1 N = Inr g \<longrightarrow> leftmost g = make_matchgate"
  proof (cases "2 \<le> N")
    case True
    then show ?thesis
      using layertype1_ok [of N] by auto
  next
    case False
    then have "make_layertype1 N = Inl UnboundLocalError"
      by (simp add: layertype1_fails)
    then show ?thesis
      by simp
  qed
  have step: "\<forall>sv ds u s. \<exists>r. timestep sv ds N u s = Inr r \<and> dict_structure r = c"
  proof (intro allI)
    fix sv ds u s
    from timestep_ok [OF c(1), of sv ds u s]
    obtain r where "timestep sv ds N u s = Inr r" "dict_structure r = c"
      by (elim exE conjE)
    then show "\<exists>r. timestep sv ds N u s = Inr r \<and> dict_structure r = c"
      by (intro exI [of _ r] conjI)
  qed
  from c len left2 left1 step show ?thesis
    by (intro exI [of _ c] conjI)
qed

theorem make_MGC_layers_witness:
  "(1::int) \<le> 3
   \<and> (\<exists>c. make_MGC 3 = Inr c
           \<and> length (layers c) = nat 3
           \<and> map Inr (layers c)
               = map (\<lambda>l. if even l then Inr (make_layertype2 3) else make_layertype1 3)
                   [0..<nat 3]
           \<and> leftmost (make_layertype2 3) = IdentityGate
           \<and> (\<forall>g. make_layertype1 3 = Inr g \<longrightarrow> leftmost g = make_matchgate)
           \<and> (\<forall>(sv :: (nat, nat, nat) solver) ds u s.
                 \<exists>r. timestep sv ds 3 u s = Inr r \<and> dict_structure r = c))"
proof -
  have h: "(1::int) \<le> 3"
    by simp
  from h make_MGC_layers [OF h] show ?thesis
    by (rule conjI)
qed


text \<open>
  C10: \<^verbatim>\<open>make_layertype1(1)\<close> raises \<^verbatim>\<open>UnboundLocalError\<close>, its loop making
  no pass; \<^verbatim>\<open>make_MGC(1)\<close> makes one pass, which builds the layer of
  \<^verbatim>\<open>make_layertype2(1)\<close> only, and returns the identity gate on one qubit, with no
  parameter; for every \<open>N \<ge> 2\<close> both layer builders return a gate on exactly \<open>N\<close>
  qubits.
\<close>

theorem layer_builders_defined:
  assumes "2 \<le> N"
  shows "make_layertype1 1 = Inl UnboundLocalError
   \<and> fold layertype1_body [0..<nat (int_half 1)] (Inr None) = Inr None
   \<and> fold (MGC_body 1) [0..<nat 1] (Inr None) = MGC_body 1 0 (Inr None)
   \<and> MGC_body 1 0 (Inr None) = Inr (Some (make_layertype2 1))
   \<and> make_MGC 1 = Inr IdentityGate
   \<and> qudits IdentityGate = 1 \<and> num_inputs IdentityGate = 0
   \<and> (\<exists>g. make_layertype1 N = Inr g \<and> qudits g = nat N)
   \<and> qudits (make_layertype2 N) = nat N"
proof -
  have A: "make_layertype1 1 = Inl UnboundLocalError"
    by (simp add: layertype1_fails)
  have B: "fold layertype1_body [0..<nat (int_half 1)] (Inr None) = Inr None"
    by (simp add: int_half_def)
  have C: "fold (MGC_body 1) [0..<nat 1] (Inr None) = MGC_body 1 0 (Inr None)"
    by simp
  have D: "MGC_body 1 0 (Inr None) = Inr (Some (make_layertype2 1))"
    by simp
  have E: "make_MGC 1 = Inr IdentityGate"
    by (simp add: make_MGC_def read_local_def make_layertype2_def int_half_def)
  from layertype1_ok [OF assms] have F: "\<exists>g. make_layertype1 N = Inr g \<and> qudits g = nat N"
    by blast
  have G: "qudits (make_layertype2 N) = nat N"
    using layertype2_ok [of N] assms by simp
  from A B C D E F G show ?thesis
    by simp
qed

theorem layer_builders_defined_witness:
  "(2::int) \<le> 5
   \<and> make_layertype1 1 = Inl UnboundLocalError
   \<and> fold layertype1_body [0..<nat (int_half 1)] (Inr None) = Inr None
   \<and> fold (MGC_body 1) [0..<nat 1] (Inr None) = MGC_body 1 0 (Inr None)
   \<and> MGC_body 1 0 (Inr None) = Inr (Some (make_layertype2 1))
   \<and> make_MGC 1 = Inr IdentityGate
   \<and> qudits IdentityGate = 1 \<and> num_inputs IdentityGate = 0
   \<and> (\<exists>g. make_layertype1 5 = Inr g \<and> qudits g = nat 5)
   \<and> qudits (make_layertype2 5) = nat 5"
proof -
  have h: "(2::int) \<le> 5"
    by simp
  from h layer_builders_defined [OF h] show ?thesis
    by (rule conjI)
qed


section \<open>Parameter counts\<close>

text \<open>
  C2: the claim that a primitive contributes 6 parameters, that every layer holds
  \<open>N div 2\<close> primitives and that \<^verbatim>\<open>make_MGC(3)\<close> has 18 parameters fails: the
  primitive has five rotation layers of two rotations each, hence 10 parameters,
  \<^verbatim>\<open>make_MGC(3)\<close> has 30, and \<^verbatim>\<open>make_layertype2(4)\<close> holds one primitive.
\<close>

theorem parameter_count_counterexample:
  "num_inputs make_matchgate \<noteq> 6
   \<and> make_MGC 3 =
       Inr (ProductGate
              [ProductGate [KroneckerGate IdentityGate make_matchgate,
                            KroneckerGate make_matchgate IdentityGate],
               KroneckerGate IdentityGate make_matchgate])
   \<and> num_inputs
        (ProductGate
           [ProductGate [KroneckerGate IdentityGate make_matchgate,
                         KroneckerGate make_matchgate IdentityGate],
            KroneckerGate IdentityGate make_matchgate]) \<noteq> 18
   \<and> primitives (make_layertype2 4) \<noteq> nat (4 div 2)"
proof -
  have "primitives (make_layertype2 4) = 1"
    using layertype2_ok [of 4] by simp
  then show ?thesis
    by (simp add: make_MGC_3 matchgate_facts Identity_not_matchgate)
qed


text \<open>
  C2, as amended: a primitive contributes exactly 10 rotation parameters; for
  \<open>N \<ge> 2\<close> the layer of \<^verbatim>\<open>make_layertype1(N)\<close> holds \<open>N div 2\<close> primitives, and the
  layer of \<^verbatim>\<open>make_layertype2(N)\<close> holds \<open>N div 2\<close> of them when \<open>N\<close> is odd and
  \<open>N div 2 - 1\<close> when \<open>N\<close> is even; the parameters of \<^verbatim>\<open>make_MGC(N)\<close> are those of
  its layers, \<open>5 * N * (N - 1)\<close> in all; \<^verbatim>\<open>make_MGC(3)\<close> has three layers of one
  primitive each and 30 parameters.
\<close>

theorem parameter_count:
  assumes "2 \<le> N"
  shows "num_inputs make_matchgate = 10
   \<and> (\<exists>g. make_layertype1 N = Inr g \<and> primitives g = nat (N div 2)
          \<and> num_inputs g = 10 * primitives g)
   \<and> primitives (make_layertype2 N) = (if even N then nat (N div 2) - 1 else nat (N div 2))
   \<and> num_inputs (make_layertype2 N) = 10 * primitives (make_layertype2 N)
   \<and> (\<exists>c. make_MGC N = Inr c \<and> num_inputs c = sum_list (map num_inputs (layers c))
          \<and> num_inputs c = 5 * nat N * (nat N - 1))
   \<and> (\<exists>c. make_MGC 3 = Inr c \<and> map primitives (layers c) = [1, 1, 1] \<and> num_inputs c = 30)"
proof -
  have N1: "1 \<le> N"
    using assms by simp
  have A: "num_inputs make_matchgate = 10"
    by (rule matchgate_facts)
  from layertype1_ok [OF assms] obtain g where
    "make_layertype1 N = Inr g" "primitives g = nat (N div 2)" "num_inputs g = 10 * nat (N div 2)"
    by blast
  then have B: "\<exists>g. make_layertype1 N = Inr g \<and> primitives g = nat (N div 2)
                  \<and> num_inputs g = 10 * primitives g"
    by simp
  have C: "primitives (make_layertype2 N) = (if even N then nat (N div 2) - 1 else nat (N div 2))"
    using layertype2_ok [OF N1] by (simp add: even_iff_mod_2_eq_zero)
  have D: "num_inputs (make_layertype2 N) = 10 * primitives (make_layertype2 N)"
    using layertype2_ok [OF N1] by simp
  from make_MGC_ok [OF N1] make_MGC_num_inputs [OF N1]
  have E: "\<exists>c. make_MGC N = Inr c \<and> num_inputs c = sum_list (map num_inputs (layers c))
          \<and> num_inputs c = 5 * nat N * (nat N - 1)"
    by auto
  have F: "\<exists>c. make_MGC 3 = Inr c \<and> map primitives (layers c) = [1, 1, 1] \<and> num_inputs c = 30"
    by (simp add: make_MGC_3 matchgate_facts Identity_not_matchgate)
  from A B C D E F show ?thesis
    by (intro conjI)
qed

theorem parameter_count_witness:
  "(2::int) \<le> 4
   \<and> num_inputs make_matchgate = 10
   \<and> (\<exists>g. make_layertype1 4 = Inr g \<and> primitives g = nat (4 div 2)
          \<and> num_inputs g = 10 * primitives g)
   \<and> primitives (make_layertype2 4) = (if even (4::int) then nat (4 div 2) - 1 else nat (4 div 2))
   \<and> num_inputs (make_layertype2 4) = 10 * primitives (make_layertype2 4)
   \<and> (\<exists>c. make_MGC 4 = Inr c \<and> num_inputs c = sum_list (map num_inputs (layers c))
          \<and> num_inputs c = 5 * nat 4 * (nat 4 - 1))
   \<and> (\<exists>c. make_MGC 3 = Inr c \<and> map primitives (layers c) = [1, 1, 1] \<and> num_inputs c = 30)"
proof -
  have h: "(2::int) \<le> 4"
    by simp
  from h parameter_count [OF h] show ?thesis
    by (rule conjI)
qed


section \<open>The retry loop\<close>

text \<open>
  C3: across the attempts of one synthesis call the best distance never increases:
  after the attempt of index \<open>j\<close> it is at most what it was after any earlier attempt
  \<open>i\<close>, and at most the initial 1, whatever the solver and the distance return. The
  locals after the last attempt are those the loop ends with.
\<close>

theorem best_distance_nonincreasing:
  assumes "i \<le> j" and "j < length (retry_trace sv ds c u 5 (initial s))"
  shows "dist (retry_trace sv ds c u 5 (initial s) ! j)
           \<le> dist (retry_trace sv ds c u 5 (initial s) ! i)
         \<and> dist (retry_trace sv ds c u 5 (initial s) ! i) \<le> 1
         \<and> retry sv ds c u 5 (initial s) = last (retry_trace sv ds c u 5 (initial s))"
proof -
  let ?T = "retry_trace sv ds c u 5 (initial s)"
  have mono: "dist (?T ! j) \<le> dist (?T ! i)"
  proof (cases "i = j")
    case True
    then show ?thesis by simp
  next
    case False
    with assms have "i < j" by simp
    with assms(2) retry_trace_sorted [of sv ds c u 5 "initial s"] show ?thesis
      by (simp add: sorted_wrt_iff_nth_less)
  qed
  from assms have "?T ! i \<in> set ?T"
    by simp
  then have "dist (?T ! i) \<le> dist (initial s :: ('a, 'b, 'c) locals)"
    by (rule retry_trace_bound)
  then have bound: "dist (?T ! i) \<le> 1"
    by (simp add: initial_def)
  from assms have "?T \<noteq> []"
    by auto
  then have final: "retry sv ds c u 5 (initial s) = last ?T"
    by (simp add: retry_last)
  from mono bound final show ?thesis
    by (intro conjI)
qed

theorem best_distance_nonincreasing_witness:
  "(0::nat) \<le> 1
   \<and> 1 < length (retry_trace sample_solver sample_distance IdentityGate 100 5 (initial 0))
   \<and> dist (retry_trace sample_solver sample_distance IdentityGate 100 5 (initial 0) ! 1)
           \<le> dist (retry_trace sample_solver sample_distance IdentityGate 100 5 (initial 0) ! 0)
   \<and> dist (retry_trace sample_solver sample_distance IdentityGate 100 5 (initial 0) ! 0) \<le> 1
   \<and> retry sample_solver sample_distance IdentityGate 100 5 (initial 0)
       = last (retry_trace sample_solver sample_distance IdentityGate 100 5 (initial 0))"
proof -
  have h1: "(0::nat) \<le> 1"
    by simp
  have h2: "1 < length (retry_trace sample_solver sample_distance IdentityGate 100 5 (initial 0))"
    by code_simp
  from h1 h2 best_distance_nonincreasing [OF h1 h2] show ?thesis
    by (intro conjI) simp_all
qed





text \<open>
  C1: the parameters handed to the assembler are those of the last attempt, not
  of the best one. With the sample library, whose first attempt is at distance
  \<open>1/2\<close> and whose four later ones are at \<open>7/10\<close>, the time step reports the distance
  \<open>1/2\<close> and hands on the parameters of the fifth attempt, whose matrix is at distance
  \<open>7/10\<close>.
\<close>

theorem emitted_parameters_of_last_attempt:
  "\<exists>r. timestep sample_solver sample_distance 3 100 0 = Inr r
      \<and> attempts r = [1 / 2, 7 / 10, 7 / 10, 7 / 10, 7 / 10]
      \<and> reported r = 1 / 2
      \<and> dict_parameters r = 4
      \<and> last_mat r = Some 4
      \<and> sample_distance 4 100 = 7 / 10"
proof -
  let ?c = "ProductGate
              [ProductGate [KroneckerGate IdentityGate make_matchgate,
                            KroneckerGate make_matchgate IdentityGate],
               KroneckerGate IdentityGate make_matchgate]"
  from timestep_ok [OF make_MGC_3, of sample_solver sample_distance 100 0] obtain r where
    r: "timestep sample_solver sample_distance 3 100 0 = Inr r"
    "reported r = dist (retry sample_solver sample_distance ?c 100 5 (initial 0))"
    "Some (dict_parameters r) = vec (retry sample_solver sample_distance ?c 100 5 (initial 0))"
    "attempts r = printed (retry sample_solver sample_distance ?c 100 5 (initial 0))"
    "last_mat r = mat (retry sample_solver sample_distance ?c 100 5 (initial 0))"
    by blast
  have e: "dist (retry sample_solver sample_distance ?c 100 5 (initial 0)) = 1 / 2"
    "vec (retry sample_solver sample_distance ?c 100 5 (initial 0)) = Some 4"
    "printed (retry sample_solver sample_distance ?c 100 5 (initial 0))
       = [1 / 2, 7 / 10, 7 / 10, 7 / 10, 7 / 10]"
    "mat (retry sample_solver sample_distance ?c 100 5 (initial 0)) = Some 4"
    "sample_distance 4 100 = 7 / 10"
    by code_simp+
  from r e show ?thesis
    by (intro exI [of _ r]) simp
qed


section \<open>The target and the random source\<close>

text \<open>
  C8: the claim that a malformed target makes the synthesis call fail before any
  optimisation fails: for two qubits and the target twice the identity, which is square
  and of dimension 4 and is not unitary, the time step makes its five attempts and hands
  a circuit with its parameters to the assembler.
\<close>

theorem unchecked_target_counterexample:
  "dimension (twice_identity 4) = 2 ^ 2
   \<and> \<not> unitary (twice_identity 4)
   \<and> \<not> valid_target 2 (twice_identity 4)
   \<and> (\<exists>r. timestep zero_solver overlap_distance 2 (twice_identity 4) () = Inr r
          \<and> length (attempts r) = 5
          \<and> dict_parameters r = replicate 10 0)"
proof -
  let ?c = "ProductGate [KroneckerGate IdentityGate IdentityGate, make_matchgate]"
  have A: "dimension (twice_identity 4) = 2 ^ 2"
    by (simp add: twice_identity_def)
  have B: "\<not> unitary (twice_identity 4)"
    by (rule twice_identity_not_unitary) simp
  then have C: "\<not> valid_target 2 (twice_identity 4)"
    by (simp add: valid_target_def)
  have q: "qudits ?c = 2" "num_inputs ?c = 10"
    by (simp_all add: matchgate_facts)
  have one: "\<And>s. overlap_distance (fst (fst (zero_solver ?c (twice_identity 4) s)))
                (twice_identity 4) = 1"
    using overlap_identity_twice [of 4] by (simp add: zero_solver_def q)
  have "dist (initial () :: (cmat, real list, unit) locals) = 1"
    "printed (initial () :: (cmat, real list, unit) locals) = []"
    by (simp_all add: initial_def)
  with retry_no_progress [of overlap_distance zero_solver ?c "twice_identity 4" "initial ()" 5, OF one]
  have p: "printed (retry zero_solver overlap_distance ?c (twice_identity 4) 5 (initial ()))
             = replicate 5 1"
    by simp
  from timestep_ok [OF make_MGC_2, of zero_solver overlap_distance "twice_identity 4" "()"]
  obtain r where
    r: "timestep zero_solver overlap_distance 2 (twice_identity 4) () = Inr r"
    "attempts r = printed (retry zero_solver overlap_distance ?c (twice_identity 4) 5 (initial ()))"
    "Some (dict_parameters r)
       = vec (retry zero_solver overlap_distance ?c (twice_identity 4) 5 (initial ()))"
    by blast
  have ne: "retry_trace zero_solver overlap_distance ?c (twice_identity 4) 5 (initial ()) \<noteq> []"
    using retry_trace_nonempty [of zero_solver overlap_distance ?c "twice_identity 4" 4 "initial ()"]
    by simp
  have "vec (retry zero_solver overlap_distance ?c (twice_identity 4) 5 (initial ()))
          = Some (replicate 10 0)"
    using retry_vec_last [OF ne] by (simp add: zero_solver_def matchgate_facts)
  with r(3) have v: "dict_parameters r = replicate 10 0"
    by simp
  from r(2) p have l: "length (attempts r) = 5"
    by simp
  from A B C r(1) l v show ?thesis
    by (intro conjI exI [of _ r])
qed

text \<open>
  C8, as amended: the time step makes no check of the target. For every \<open>N \<ge> 1\<close> and
  every target, unitary or not, it raises no error of its own whenever the calls of the
  library return, and it calls the solver on the target as given: the first line it
  prints is the distance between the target and the matrix of the first call.
\<close>

theorem target_handed_unchecked:
  assumes "1 \<le> N"
  shows "\<exists>c r. make_MGC N = Inr c
           \<and> timestep sv ds N u s = Inr r
           \<and> attempts r \<noteq> []
           \<and> hd (attempts r) = ds (fst (fst (sv c u s))) u"
proof -
  from make_MGC_ok [OF assms] obtain c where c: "make_MGC N = Inr c"
    by blast
  from timestep_ok [OF c, of sv ds u s] obtain r where
    r: "timestep sv ds N u s = Inr r"
    "attempts r = printed (retry sv ds c u 5 (initial s))"
    by blast
  from retry_printed_first [of sv ds c u 4 "initial s"] obtain xs where
    "printed (retry sv ds c u (Suc 4) (initial s))
       = printed (initial s :: ('a, 'b, 'c) locals)
         @ ds (fst (fst (sv c u (library_state (initial s :: ('a, 'b, 'c) locals))))) u # xs"
    by blast
  then have "printed (retry sv ds c u 5 (initial s)) = ds (fst (fst (sv c u s))) u # xs"
    by (simp add: initial_def)
  with r(2) have "attempts r \<noteq> []" "hd (attempts r) = ds (fst (fst (sv c u s))) u"
    by simp_all
  with c r(1) show ?thesis
    by (intro exI [of _ c] exI [of _ r] conjI)
qed

theorem target_handed_unchecked_witness:
  "(1::int) \<le> 2
   \<and> \<not> valid_target 2 (twice_identity 4)
   \<and> (\<exists>c r. make_MGC 2 = Inr c
           \<and> timestep zero_solver overlap_distance 2 (twice_identity 4) () = Inr r
           \<and> attempts r \<noteq> []
           \<and> hd (attempts r)
               = overlap_distance (fst (fst (zero_solver c (twice_identity 4) ())))
                   (twice_identity 4))"
proof -
  have h: "(1::int) \<le> 2"
    by simp
  have "\<not> unitary (twice_identity 4)"
    by (rule twice_identity_not_unitary) simp
  then have A: "\<not> valid_target 2 (twice_identity 4)"
    by (simp add: valid_target_def)
  from h A target_handed_unchecked [OF h, of zero_solver overlap_distance "twice_identity 4" "()"]
  show ?thesis
    by (intro conjI)
qed




section \<open>Unitarity\<close>

text \<open>
  C7: for every \<open>N \<ge> 1\<close> and every real parameter vector whose length is the
  parameter count of the circuit, evaluating the tree built by \<^verbatim>\<open>make_MGC(N)\<close>
  consumes the whole vector and yields a unitary matrix of dimension \<open>2^N\<close>.
\<close>

theorem evaluate_make_MGC_unitary:
  assumes "1 \<le> N" and "make_MGC N = Inr c" and "length params = num_inputs c"
  shows "\<exists>M. evaluate c params = Some (M, [])
             \<and> dimension M = 2 ^ nat N \<and> unitary M"
proof -
  have w: "well_formed c"
    using assms(1) assms(2) by (rule make_MGC_wf)
  have q: "qudits c = nat N"
    using make_MGC_ok [OF assms(1)] assms(2) by auto
  have "num_inputs c \<le> length params"
    using assms(3) by simp
  from evaluate_unitary [OF w this] q assms(3) show ?thesis
    by simp
qed

theorem evaluate_make_MGC_unitary_witness:
  "(1::int) \<le> 2
   \<and> make_MGC 2 = Inr (ProductGate [KroneckerGate IdentityGate IdentityGate, make_matchgate])
   \<and> length [1, 2, 3, 4, 5, 6, 7, 8, 9, 10 :: real]
       = num_inputs (ProductGate [KroneckerGate IdentityGate IdentityGate, make_matchgate])
   \<and> (\<exists>M. evaluate (ProductGate [KroneckerGate IdentityGate IdentityGate, make_matchgate])
             [1, 2, 3, 4, 5, 6, 7, 8, 9, 10] = Some (M, [])
          \<and> dimension M = 2 ^ nat 2 \<and> unitary M)"
proof -
  have h1: "(1::int) \<le> 2"
    by simp
  have h2: "make_MGC 2 = Inr (ProductGate [KroneckerGate IdentityGate IdentityGate, make_matchgate])"
    by code_simp
  have h3: "length [1, 2, 3, 4, 5, 6, 7, 8, 9, 10 :: real]
       = num_inputs (ProductGate [KroneckerGate IdentityGate IdentityGate, make_matchgate])"
    by (simp add: matchgate_facts)
  from h1 h2 h3 evaluate_make_MGC_unitary [OF h1 h2 h3] show ?thesis
    by (intro conjI)
qed

end
